theory Spec2Isabelle
  imports Main
begin

section \<open>The persistent-process relay: data model\<close>

text \<open>
  The relay keeps one child process alive, writes newline-delimited JSON requests to its
  standard input, frames its standard output into lines, and settles the promise of each
  pending request from the line that carries its id, from a 30 second timer, or from the
  death of the child. The model follows the three functions of the source:
  \<^verbatim>\<open>startMCPProcess\<close> with its four event handlers, \<^verbatim>\<open>sendToMCP\<close> with its
  timer callback, and the global variables they share. Console output is not part of
  the model.
\<close>

subsection \<open>Values\<close>

text \<open>
  What \<^verbatim>\<open>JSON.parse\<close> returns. The parser itself belongs to the JavaScript runtime and
  is a parameter \<open>parse\<close> of the model: \<open>None\<close> stands for the thrown SyntaxError.
  Numbers are carried as integers; \<^verbatim>\<open>JSON.parse\<close> never yields NaN, so \<^verbatim>\<open>===\<close> on
  two numbers is equality of their values.
\<close>

datatype json =
    JNull
  | JBool bool
  | JNum int
  | JStr string
  | JArr "json list"
  | JObj "(string \<times> json) list"

text \<open>The declared type of \<^verbatim>\<open>PendingRequest.id\<close>: \<^verbatim>\<open>string | number\<close>.\<close>

datatype js_id = Num int | Str string

text \<open>The value of a property read: \<^verbatim>\<open>undefined\<close> when the property is absent.\<close>

datatype jsval = Undefined | Value json

text \<open>
  \<^verbatim>\<open>response.id\<close>. Reading a property of \<^verbatim>\<open>null\<close> throws a TypeError (\<open>None\<close>);
  primitives and arrays have no property \<^verbatim>\<open>id\<close>; an object yields the member or
  \<^verbatim>\<open>undefined\<close>. A parsed object lists each key once.
\<close>

fun get_id :: "json \<Rightarrow> jsval option" where
  "get_id JNull = None"
| "get_id (JObj kvs) = (case map_of kvs ''id'' of None \<Rightarrow> Some Undefined | Some v \<Rightarrow> Some (Value v))"
| "get_id _ = Some Undefined"

text \<open>
  \<^verbatim>\<open>req.id === response.id\<close>: strict equality never converts; a number equals only the
  same number and a string only the same string.
\<close>

fun strict_eq :: "js_id \<Rightarrow> jsval \<Rightarrow> bool" where
  "strict_eq (Num n) (Value (JNum m)) = (n = m)"
| "strict_eq (Str s) (Value (JStr t)) = (s = t)"
| "strict_eq _ _ = False"

datatype js_error = Error string

subsection \<open>String and array primitives of the runtime\<close>

text \<open>
  A chunk of a stream is a list of bytes. Text is carried in its UTF-8 encoding, so a
  string of the program is the list of the bytes that encode it: the line terminator is
  the byte 0A, and U+FFFD, the replacement character, is the three bytes EF BF BD.
\<close>

definition newline :: char where
  "newline = CHR 0x0A"

definition replacement :: string where
  "replacement = [CHR 0xEF, CHR 0xBF, CHR 0xBD]"

definition between :: "nat \<Rightarrow> nat \<Rightarrow> char \<Rightarrow> bool" where
  "between lo hi c = (lo \<le> of_char c \<and> of_char c \<le> hi)"

text \<open>The bounds of the second byte of a sequence, which depend on the first byte.\<close>

definition second_lo :: "char \<Rightarrow> nat" where
  "second_lo b = (if b = CHR 0xE0 then 0xA0 else if b = CHR 0xF0 then 0x90 else 0x80)"

definition second_hi :: "char \<Rightarrow> nat" where
  "second_hi b = (if b = CHR 0xED then 0x9F else if b = CHR 0xF4 then 0x8F else 0xBF)"

text \<open>
  \<^verbatim>\<open>data.toString()\<close> on a Buffer: the bytes decoded as UTF-8, one chunk at a time and
  with no memory of the chunk before. A well-formed sequence is kept. A byte that can
  start no sequence, and a sequence that stops short (at a byte that cannot continue it,
  or at the end of the chunk), become one replacement character each; the byte that
  stopped the sequence is decoded again on its own.
\<close>

fun toString :: "string \<Rightarrow> string" where
  "toString [] = []"
| "toString (b # bs) =
     (if between 0x00 0x7F b then b # toString bs
      else if between 0xC2 0xDF b then
        (case bs of
           [] \<Rightarrow> replacement
         | c # cs \<Rightarrow>
             if between 0x80 0xBF c then b # c # toString cs
             else replacement @ toString bs)
      else if between 0xE0 0xEF b then
        (case bs of
           [] \<Rightarrow> replacement
         | c # cs \<Rightarrow>
             if between (second_lo b) (second_hi b) c then
               (case cs of
                  [] \<Rightarrow> replacement
                | d # ds \<Rightarrow>
                    if between 0x80 0xBF d then b # c # d # toString ds
                    else replacement @ toString cs)
             else replacement @ toString bs)
      else if between 0xF0 0xF4 b then
        (case bs of
           [] \<Rightarrow> replacement
         | c # cs \<Rightarrow>
             if between (second_lo b) (second_hi b) c then
               (case cs of
                  [] \<Rightarrow> replacement
                | d # ds \<Rightarrow>
                    if between 0x80 0xBF d then
                      (case ds of
                         [] \<Rightarrow> replacement
                       | e # es \<Rightarrow>
                           if between 0x80 0xBF e then b # c # d # e # toString es
                           else replacement @ toString ds)
                    else replacement @ toString cs)
             else replacement @ toString bs)
      else replacement @ toString bs)"

text \<open>\<^verbatim>\<open>s.split(sep)\<close> for a one-character separator: never the empty array.\<close>

fun js_split :: "char \<Rightarrow> string \<Rightarrow> string list" where
  "js_split sep [] = [[]]"
| "js_split sep (c # cs) =
     (if c = sep then [] # js_split sep cs
      else (let r = js_split sep cs in (c # hd r) # tl r))"

text \<open>\<^verbatim>\<open>xs.pop()\<close>: the last element (\<^verbatim>\<open>undefined\<close> on the empty array) and what is left.\<close>

definition js_pop :: "'a list \<Rightarrow> 'a option \<times> 'a list" where
  "js_pop xs = (if xs = [] then (None, []) else (Some (last xs), butlast xs))"

fun starts_with :: "string \<Rightarrow> string \<Rightarrow> bool" where
  "starts_with s [] = True"
| "starts_with [] (p # ps) = False"
| "starts_with (c # cs) (p # ps) = (c = p \<and> starts_with cs ps)"

text \<open>
  The white space and the line terminators of ECMAScript, each in its encoding:
  U+0009 to U+000D, U+0020, U+00A0, U+1680, U+2000 to U+200A, U+2028, U+2029, U+202F,
  U+205F, U+3000 and U+FEFF.
\<close>

definition white_space :: "string list" where
  "white_space =
     [[CHR 0x09], [CHR 0x0A], [CHR 0x0B], [CHR 0x0C], [CHR 0x0D], [CHR 0x20],
      [CHR 0xC2, CHR 0xA0], [CHR 0xE1, CHR 0x9A, CHR 0x80],
      [CHR 0xE2, CHR 0x80, CHR 0x80], [CHR 0xE2, CHR 0x80, CHR 0x81],
      [CHR 0xE2, CHR 0x80, CHR 0x82], [CHR 0xE2, CHR 0x80, CHR 0x83],
      [CHR 0xE2, CHR 0x80, CHR 0x84], [CHR 0xE2, CHR 0x80, CHR 0x85],
      [CHR 0xE2, CHR 0x80, CHR 0x86], [CHR 0xE2, CHR 0x80, CHR 0x87],
      [CHR 0xE2, CHR 0x80, CHR 0x88], [CHR 0xE2, CHR 0x80, CHR 0x89],
      [CHR 0xE2, CHR 0x80, CHR 0x8A], [CHR 0xE2, CHR 0x80, CHR 0xA8],
      [CHR 0xE2, CHR 0x80, CHR 0xA9], [CHR 0xE2, CHR 0x80, CHR 0xAF],
      [CHR 0xE2, CHR 0x81, CHR 0x9F], [CHR 0xE3, CHR 0x80, CHR 0x80],
      [CHR 0xEF, CHR 0xBB, CHR 0xBF]]"

text \<open>
  The text without the characters of \<open>ws\<close> it starts with: as long as the text starts
  with an entry of \<open>ws\<close>, that entry is dropped. The entries of \<open>ws\<close> are encodings of
  characters: none is empty, and none is the start of another.
\<close>

fun strip :: "string list \<Rightarrow> string \<Rightarrow> string" where
  "strip ws [] = []"
| "strip ws (c # cs) =
     (case find (starts_with (c # cs)) ws of
        None \<Rightarrow> c # cs
      | Some w \<Rightarrow> strip ws (drop (length w - 1) cs))"

text \<open>
  \<^verbatim>\<open>s.trim()\<close>: white space and line terminators removed at both ends; at the end,
  on the reversed text with the reversed encodings.
\<close>

definition js_trim :: "string \<Rightarrow> string" where
  "js_trim s = rev (strip (map rev white_space) (rev (strip white_space s)))"

text \<open>\<^verbatim>\<open>s.includes(pat)\<close>: \<open>pat\<close> occurs in \<open>s\<close> as a contiguous substring.\<close>

fun js_includes :: "string \<Rightarrow> string \<Rightarrow> bool" where
  "js_includes [] pat = (pat = [])"
| "js_includes (c # cs) pat = (starts_with (c # cs) pat \<or> js_includes cs pat)"

text \<open>\<^verbatim>\<open>xs.findIndex(P)\<close>: the first index whose element satisfies \<open>P\<close>, or \<open>-1\<close>.\<close>

fun findIndex :: "('a \<Rightarrow> bool) \<Rightarrow> 'a list \<Rightarrow> int" where
  "findIndex P [] = - 1"
| "findIndex P (x # xs) =
     (if P x then 0 else (let i = findIndex P xs in if i = - 1 then - 1 else i + 1))"

text \<open>\<^verbatim>\<open>xs.splice(i, 1)\<close>: the array without its element at index \<open>i\<close>.\<close>

definition splice1 :: "nat \<Rightarrow> 'a list \<Rightarrow> 'a list" where
  "splice1 i xs = take i xs @ drop (Suc i) xs"

subsection \<open>State\<close>

text \<open>
  A pending request holds the two settling functions of one promise; \<open>promise\<close> names
  that promise. Every call of \<^verbatim>\<open>resolve\<close> or \<^verbatim>\<open>reject\<close> is recorded in order; a promise
  is settled by the first call on it and ignores the later ones.
\<close>

record PendingRequest =
  id' :: js_id
  promise :: nat

datatype call = Resolve nat json | Reject nat js_error

fun promise_of :: "call \<Rightarrow> nat" where
  "promise_of (Resolve p v) = p"
| "promise_of (Reject p e) = p"

definition calls_on :: "nat \<Rightarrow> call list \<Rightarrow> call list" where
  "calls_on p cs = filter (\<lambda>c. promise_of c = p) cs"

text \<open>The state of the promise \<open>p\<close>: pending (\<open>None\<close>) or settled by its first call.\<close>

definition outcome :: "nat \<Rightarrow> call list \<Rightarrow> call option" where
  "outcome p cs = (case calls_on p cs of [] \<Rightarrow> None | c # _ \<Rightarrow> Some c)"

text \<open>
  A pending \<^verbatim>\<open>setTimeout\<close>: the time it is due and its callback, either the timeout
  closure of \<^verbatim>\<open>sendToMCP\<close> (which keeps \<^verbatim>\<open>request.id\<close> and its own \<^verbatim>\<open>reject\<close>) or
  \<^verbatim>\<open>startMCPProcess\<close>.
\<close>

datatype callback = RequestTimeout js_id nat | Restart

record timer =
  due :: nat
  callback :: callback

text \<open>
  The globals \<^verbatim>\<open>mcpProcess\<close>, \<^verbatim>\<open>requestQueue\<close>, \<^verbatim>\<open>isReady\<close>, the variable \<^verbatim>\<open>buffer\<close>
  of the running child's handlers, and the runtime around them: armed timers, the clock
  in milliseconds, the calls made on promises, the number of promises created, and
  whether the current child is still delivering events.
\<close>

record relay =
  mcpProcess :: "nat option"
  requestQueue :: "PendingRequest list"
  isReady :: bool
  buffer :: string
  timers :: "timer list"
  now :: nat
  calls :: "call list"
  promises :: nat
  running :: bool

definition init :: relay where
  "init = \<lparr>mcpProcess = None, requestQueue = [], isReady = False, buffer = [],
           timers = [], now = 0, calls = [], promises = 0, running = False\<rparr>"

text \<open>The argument of \<^verbatim>\<open>sendToMCP\<close>: \<open>req_id\<close> is \<^verbatim>\<open>request.id\<close>.\<close>

record request =
  req_id :: js_id
  params :: json

text \<open>What \<^verbatim>\<open>mcpProcess.stdin?.write(...)\<close> does: returns, or throws a value.\<close>

datatype write_result = WriteOk | WriteThrows js_error

section \<open>The operations\<close>

subsection \<open>startMCPProcess and its handlers\<close>

text \<open>
  \<^verbatim>\<open>startMCPProcess\<close> spawns a child, stores it in \<^verbatim>\<open>mcpProcess\<close>, and attaches the four
  handlers below to it, with a fresh empty \<^verbatim>\<open>buffer\<close>. It does not touch \<^verbatim>\<open>isReady\<close>.
  The children are numbered in the order they are spawned.
\<close>

definition startMCPProcess :: "relay \<Rightarrow> relay" where
  "startMCPProcess s =
     s\<lparr>mcpProcess := Some (case mcpProcess s of None \<Rightarrow> 0 | Some n \<Rightarrow> Suc n),
       buffer := [],
       running := True\<rparr>"

text \<open>
  The first three statements of the \<^verbatim>\<open>stdout\<close> handler: the Line Framer. The stream has
  no encoding set, so \<open>data\<close> is the Buffer of the chunk, and \<^verbatim>\<open>buffer += data.toString()\<close>
  decodes it alone before appending. The framer returns the complete lines and the new
  buffer.
\<close>

definition frame :: "string \<Rightarrow> string \<Rightarrow> string list \<times> string" where
  "frame buf data =
     (let buf1 = buf @ toString data;
          (popped, lines) = js_pop (js_split newline buf1)
      in (lines, case popped of None \<Rightarrow> [] | Some l \<Rightarrow> if l = [] then [] else l))"

text \<open>The body of the loop over the complete lines.\<close>

definition process_line :: "(string \<Rightarrow> json option) \<Rightarrow> string \<Rightarrow> relay \<Rightarrow> relay" where
  "process_line parse line s =
     (if js_trim line = [] then s
      else case parse line of
        None \<Rightarrow> s
      | Some response \<Rightarrow>
          (case get_id response of
             None \<Rightarrow> s
           | Some rid \<Rightarrow>
               (let index = findIndex (\<lambda>req. strict_eq (id' req) rid) (requestQueue s)
                in if index \<noteq> - 1
                   then (let request = requestQueue s ! nat index
                         in s\<lparr>requestQueue := splice1 (nat index) (requestQueue s),
                              calls := calls s @ [Resolve (promise request) response]\<rparr>)
                   else s)))"

text \<open>The loop itself, over the lines in order.\<close>

fun process_lines :: "(string \<Rightarrow> json option) \<Rightarrow> string list \<Rightarrow> relay \<Rightarrow> relay" where
  "process_lines parse [] s = s"
| "process_lines parse (line # lines) s = process_lines parse lines (process_line parse line s)"

definition on_stdout_data :: "(string \<Rightarrow> json option) \<Rightarrow> string \<Rightarrow> relay \<Rightarrow> relay" where
  "on_stdout_data parse data s =
     (let (lines, buf) = frame (buffer s) data
      in process_lines parse lines (s\<lparr>buffer := buf\<rparr>))"

text \<open>
  The handler of the diagnostic stream. It reads one chunk and keeps nothing of it, and
  \<open>data\<close> stands for the text of that chunk, \<^verbatim>\<open>data.toString()\<close>.
\<close>

definition on_stderr_data :: "string \<Rightarrow> relay \<Rightarrow> relay" where
  "on_stderr_data data s =
     (let msg = js_trim data
      in if js_includes msg ''Server Running'' \<or> js_includes msg ''Connected''
         then s\<lparr>isReady := True\<rparr> else s)"

definition on_close :: "int option \<Rightarrow> relay \<Rightarrow> relay" where
  "on_close code s =
     s\<lparr>isReady := False,
       calls := calls s @ map (\<lambda>req. Reject (promise req) (Error ''MCP process died'')) (requestQueue s),
       requestQueue := [],
       timers := timers s @ [\<lparr>due = now s + 1000, callback = Restart\<rparr>]\<rparr>"

text \<open>The \<^verbatim>\<open>error\<close> handler only logs.\<close>

definition on_error :: "relay \<Rightarrow> relay" where
  "on_error s = s"

subsection \<open>sendToMCP and its timer\<close>

text \<open>
  The executor of the promise that \<^verbatim>\<open>sendToMCP\<close> returns; \<open>p\<close> is that promise. The
  line written to the child is not recorded: \<open>wr\<close> says whether the \<^verbatim>\<open>try\<close> block
  returned (also when \<^verbatim>\<open>stdin\<close> is absent and nothing is written) or threw. The timer
  is armed on both ways out of the \<^verbatim>\<open>try\<close>, and on neither when the relay is not ready.
\<close>

definition sendToMCP :: "request \<Rightarrow> write_result \<Rightarrow> relay \<Rightarrow> relay" where
  "sendToMCP request wr s0 =
     (let p = promises s0;
          s = s0\<lparr>promises := Suc p\<rparr>
      in if mcpProcess s = None \<or> \<not> isReady s
         then s\<lparr>calls := calls s @ [Reject p (Error ''MCP not ready'')]\<rparr>
         else
           (let s1 = s\<lparr>requestQueue := requestQueue s @ [\<lparr>id' = req_id request, promise = p\<rparr>]\<rparr>;
                s2 = (case wr of
                        WriteOk \<Rightarrow> s1
                      | WriteThrows error \<Rightarrow>
                          (let index = findIndex (\<lambda>req. id' req = req_id request) (requestQueue s1);
                               s1' = (if index \<noteq> - 1
                                      then s1\<lparr>requestQueue := splice1 (nat index) (requestQueue s1)\<rparr>
                                      else s1)
                           in s1'\<lparr>calls := calls s1' @ [Reject p error]\<rparr>))
            in s2\<lparr>timers := timers s2 @ [\<lparr>due = now s2 + 30000, callback = RequestTimeout (req_id request) p\<rparr>]\<rparr>))"

text \<open>The closure given to \<^verbatim>\<open>setTimeout\<close> by the call that created promise \<open>p\<close>.\<close>

definition on_timeout :: "js_id \<Rightarrow> nat \<Rightarrow> relay \<Rightarrow> relay" where
  "on_timeout rid p s =
     (let index = findIndex (\<lambda>req. id' req = rid) (requestQueue s)
      in if index \<noteq> - 1
         then s\<lparr>requestQueue := splice1 (nat index) (requestQueue s),
                calls := calls s @ [Reject p (Error ''Request timeout'')]\<rparr>
         else s)"

subsection \<open>The event loop\<close>

text \<open>
  One event per turn of the loop. \<open>Start\<close> is the call in the \<^verbatim>\<open>listen\<close> callback.
  The child's events reach the handlers only while it runs; \<open>Close\<close> is its last one.
  \<open>Stdout\<close> carries the bytes of a chunk, which the framer decodes and joins to the text
  of the chunks before; \<open>Stderr\<close> carries the text of a chunk, \<^verbatim>\<open>data.toString()\<close>, which
  its handler uses alone.
  \<open>Send\<close> is a call of \<^verbatim>\<open>sendToMCP\<close>. \<open>Tick\<close> lets time pass; \<open>Fire k\<close> runs the armed
  timer at position \<open>k\<close>, once, and only when it is due: a timer never fires early, and
  may fire late.
\<close>

datatype event =
    Start
  | Stdout string
  | Stderr string
  | Close "int option"
  | ProcError
  | Send request write_result
  | Tick nat
  | Fire nat

fun run_callback :: "callback \<Rightarrow> relay \<Rightarrow> relay" where
  "run_callback (RequestTimeout rid p) s = on_timeout rid p s"
| "run_callback Restart s = startMCPProcess s"

fun step :: "(string \<Rightarrow> json option) \<Rightarrow> event \<Rightarrow> relay \<Rightarrow> relay" where
  "step parse Start s = (if mcpProcess s = None then startMCPProcess s else s)"
| "step parse (Stdout data) s = (if running s then on_stdout_data parse data s else s)"
| "step parse (Stderr data) s = (if running s then on_stderr_data data s else s)"
| "step parse (Close code) s = (if running s then on_close code (s\<lparr>running := False\<rparr>) else s)"
| "step parse ProcError s = (if running s then on_error s else s)"
| "step parse (Send request wr) s = sendToMCP request wr s"
| "step parse (Tick d) s = s\<lparr>now := now s + d\<rparr>"
| "step parse (Fire k) s =
     (if k < length (timers s) \<and> due (timers s ! k) \<le> now s
      then run_callback (callback (timers s ! k)) (s\<lparr>timers := splice1 k (timers s)\<rparr>)
      else s)"

text \<open>A sequence of events, handled one after the other.\<close>

fun run :: "(string \<Rightarrow> json option) \<Rightarrow> event list \<Rightarrow> relay \<Rightarrow> relay" where
  "run parse [] s = s"
| "run parse (ev # evs) s = run parse evs (step parse ev s)"

text \<open>
  A promise already created whose settling functions are held by no pending entry and by
  no armed timer: nothing in the relay can call \<^verbatim>\<open>resolve\<close> or \<^verbatim>\<open>reject\<close> on it.
\<close>

definition forgotten :: "nat \<Rightarrow> relay \<Rightarrow> bool" where
  "forgotten p s =
     (p < promises s
      \<and> list_all (\<lambda>req. promise req \<noteq> p) (requestQueue s)
      \<and> list_all (\<lambda>t. case callback t of RequestTimeout rid q \<Rightarrow> q \<noteq> p | Restart \<Rightarrow> True) (timers s))"

text \<open>
  Feeding a sequence of chunks to the Line Framer: the lines it emits, in order, and the
  last buffer.
\<close>

fun feed :: "string \<Rightarrow> string list \<Rightarrow> string list \<times> string" where
  "feed buf [] = ([], buf)"
| "feed buf (c # cs) =
     (let (ls, b) = frame buf c; (ls', b') = feed b cs in (ls @ ls', b'))"

section \<open>Facts about the runtime primitives\<close>

subsection \<open>Decoding and trimming\<close>

lemmas trim_defs = js_trim_def white_space_def

lemmas decode_defs = between_def second_lo_def second_hi_def replacement_def

lemma toString_ascii: "\<forall>c \<in> set s. between 0x00 0x7F c \<Longrightarrow> toString s = s"
  by (induction s) simp_all

subsection \<open>Splitting and framing\<close>

lemma js_split_not_Nil: "js_split sep s \<noteq> []"
  by (induction s) (simp_all add: Let_def)

lemma js_split_join:
  "concat (map (\<lambda>l. l @ [sep]) (butlast (js_split sep s))) @ last (js_split sep s) = s"
proof (induction s)
  case Nil
  show ?case by simp
next
  case (Cons c cs)
  obtain h t where r: "js_split sep cs = h # t"
    using js_split_not_Nil [of sep cs] by (cases "js_split sep cs") auto
  show ?case
  proof (cases "c = sep")
    case True
    with Cons r show ?thesis by simp
  next
    case False
    with Cons r show ?thesis by (cases t) (simp_all add: Let_def)
  qed
qed

lemma js_split_no_sep: "l \<in> set (js_split sep s) \<Longrightarrow> sep \<notin> set l"
proof (induction s arbitrary: l)
  case Nil
  then show ?case by simp
next
  case (Cons c cs)
  obtain h t where r: "js_split sep cs = h # t"
    using js_split_not_Nil [of sep cs] by (cases "js_split sep cs") auto
  have h: "sep \<notin> set h" and t: "\<And>x. x \<in> set t \<Longrightarrow> sep \<notin> set x"
    using Cons.IH r by simp_all
  show ?case
  proof (cases "c = sep")
    case True
    with Cons.prems r h t show ?thesis by auto
  next
    case False
    with Cons.prems r h t show ?thesis by (auto simp: Let_def)
  qed
qed

lemma js_split_plain: "sep \<notin> set a \<Longrightarrow> js_split sep a = [a]"
  by (induction a) (auto simp add: Let_def)

lemma js_split_append: "sep \<notin> set a \<Longrightarrow> js_split sep (a @ sep # rest) = a # js_split sep rest"
  by (induction a) (auto simp add: Let_def)

lemma frame_eq:
  "frame buf data
     = (butlast (js_split newline (buf @ toString data)), last (js_split newline (buf @ toString data)))"
  by (simp add: frame_def js_pop_def js_split_not_Nil Let_def)

text \<open>
  On the decoded text the framer loses nothing: the lines hold no terminator, and the
  lines with their terminators, followed by the new buffer, spell the old buffer followed
  by the text of the chunk.
\<close>

lemma frame_join:
  "concat (map (\<lambda>l. l @ [newline]) (fst (frame buf data))) @ snd (frame buf data)
     = buf @ toString data"
  by (simp add: frame_eq js_split_join)

lemma frame_no_newline:
  "(\<forall>l \<in> set (fst (frame buf data)). newline \<notin> set l) \<and> newline \<notin> set (snd (frame buf data))"
proof -
  have segs: "\<And>l. l \<in> set (js_split newline (buf @ toString data)) \<Longrightarrow> newline \<notin> set l"
    by (rule js_split_no_sep)
  have lines: "\<forall>l \<in> set (fst (frame buf data)). newline \<notin> set l"
    using segs by (auto simp: frame_eq dest: in_set_butlastD)
  have rest: "newline \<notin> set (snd (frame buf data))"
    using segs [of "last (js_split newline (buf @ toString data))"]
      js_split_not_Nil [of newline "buf @ toString data"]
    by (simp add: frame_eq)
  from lines rest show ?thesis by simp
qed

lemma feed_join:
  "concat (map (\<lambda>l. l @ [newline]) (fst (feed buf chunks))) @ snd (feed buf chunks)
     = buf @ concat (map toString chunks)"
proof (induction chunks arbitrary: buf)
  case Nil
  show ?case by simp
next
  case (Cons c cs)
  from Cons [of "snd (frame buf c)"] frame_join [of buf c] show ?case
    by (simp add: case_prod_unfold Let_def)
qed

text \<open>
  A line that arrives in two chunks comes out as the one line of their texts. It is the
  line that was sent when each chunk decodes to itself, as chunks of ASCII do.
\<close>

lemma feed_two_chunks:
  assumes "newline \<notin> set (toString a)" and "toString (b @ [newline]) = b' @ [newline]"
    and "newline \<notin> set b'"
  shows "feed [] [a, b @ [newline]] = ([toString a @ b'], [])"
proof -
  have one: "frame [] a = ([], toString a)"
    using assms(1) by (simp add: frame_eq js_split_plain)
  have "js_split newline (toString a @ b' @ [newline]) = [toString a @ b', []]"
    using assms(1,3) js_split_append [of newline "toString a @ b'" "[]"] by simp
  then have two: "frame (toString a) (b @ [newline]) = ([toString a @ b'], [])"
    using assms(2) by (simp add: frame_eq)
  from one two show ?thesis
    by simp
qed

text \<open>The two chunks of ASCII that the specification gives as its example.\<close>

lemma feed_example:
  \<open>feed [] [''{"id":1,"result"'', '':"ok"}'' @ [newline]] = ([''{"id":1,"result":"ok"}''], [])\<close>
  by (simp add: frame_def js_pop_def decode_defs newline_def Let_def)

subsection \<open>Searching and removing\<close>

lemma findIndex_none: "(findIndex P xs = - 1) = (\<forall>x \<in> set xs. \<not> P x)"
proof (induction xs)
  case Nil
  show ?case by simp
next
  case (Cons x xs)
  have "- 1 \<le> findIndex P xs" for xs :: "'a list"
    by (induction xs) (auto simp: Let_def)
  from this [of xs] Cons show ?case
    by (auto simp: Let_def)
qed

lemma findIndex_first:
  assumes "\<forall>x \<in> set pre. \<not> P x" and "P y"
  shows "findIndex P (pre @ y # post) = int (length pre)"
  using assms by (induction pre) (auto simp: Let_def)

lemma findIndex_split:
  assumes "findIndex P xs \<noteq> - 1"
  shows "\<exists>pre y post. xs = pre @ y # post \<and> (\<forall>x \<in> set pre. \<not> P x) \<and> P y"
proof -
  from assms obtain x where "x \<in> set xs" "P x"
    by (auto simp: findIndex_none)
  then show ?thesis
    by (metis split_list_first_prop)
qed

lemma splice1_middle: "splice1 (length pre) (pre @ y # post) = pre @ post"
  by (simp add: splice1_def)

lemma set_splice1: "set (splice1 i xs) \<subseteq> set xs"
  by (auto simp: splice1_def dest: in_set_takeD in_set_dropD)

lemma on_timeout_none:
  "\<forall>x \<in> set (requestQueue s). id' x \<noteq> rid \<Longrightarrow> on_timeout rid p s = s"
  by (simp add: on_timeout_def findIndex_none [THEN iffD2])

lemma on_timeout_first:
  assumes "requestQueue s = pre @ e # post" and "\<forall>x \<in> set pre. id' x \<noteq> rid" and "id' e = rid"
  shows "on_timeout rid p s
           = s\<lparr>requestQueue := pre @ post, calls := calls s @ [Reject p (Error ''Request timeout'')]\<rparr>"
  using assms findIndex_first [of pre "\<lambda>req. id' req = rid" e post]
  by (simp add: on_timeout_def splice1_middle)

lemma process_line_none:
  assumes "parse line = Some response" and "get_id response = Some rid"
    and "\<forall>x \<in> set (requestQueue s). \<not> strict_eq (id' x) rid"
  shows "process_line parse line s = s"
  using assms by (simp add: process_line_def findIndex_none [THEN iffD2])

lemma process_line_first:
  assumes "js_trim line \<noteq> []" and "parse line = Some response" and "get_id response = Some rid"
    and "requestQueue s = pre @ e # post" and "\<forall>x \<in> set pre. \<not> strict_eq (id' x) rid"
    and "strict_eq (id' e) rid"
  shows "process_line parse line s
           = s\<lparr>requestQueue := pre @ post, calls := calls s @ [Resolve (promise e) response]\<rparr>"
  using assms findIndex_first [of pre "\<lambda>req. strict_eq (id' req) rid" e post]
  by (simp add: process_line_def splice1_middle)

subsection \<open>The loop over the lines\<close>

lemma process_line_cases:
  "process_line parse line s = s
   \<or> (\<exists>response rid pre e post.
         parse line = Some response \<and> get_id response = Some rid
         \<and> requestQueue s = pre @ e # post
         \<and> (\<forall>x \<in> set pre. \<not> strict_eq (id' x) rid) \<and> strict_eq (id' e) rid
         \<and> process_line parse line s
             = s\<lparr>requestQueue := pre @ post, calls := calls s @ [Resolve (promise e) response]\<rparr>)"
proof (cases "js_trim line = []")
  case True
  then show ?thesis by (simp add: process_line_def)
next
  case blank: False
  show ?thesis
  proof (cases "parse line")
    case None
    then show ?thesis by (simp add: process_line_def)
  next
    case (Some response)
    show ?thesis
    proof (cases "get_id response")
      case None
      with Some show ?thesis by (simp add: process_line_def)
    next
      case rid: (Some rid)
      show ?thesis
      proof (cases "findIndex (\<lambda>req. strict_eq (id' req) rid) (requestQueue s) = - 1")
        case True
        with Some rid show ?thesis by (simp add: process_line_def)
      next
        case False
        then obtain pre e post where q: "requestQueue s = pre @ e # post"
          and pre: "\<forall>x \<in> set pre. \<not> strict_eq (id' x) rid" and e: "strict_eq (id' e) rid"
          using findIndex_split [of "\<lambda>req. strict_eq (id' req) rid" "requestQueue s"] by blast
        have "process_line parse line s
                = s\<lparr>requestQueue := pre @ post, calls := calls s @ [Resolve (promise e) response]\<rparr>"
          using blank Some rid q pre e by (rule process_line_first)
        with Some rid q pre e show ?thesis
          by blast
      qed
    qed
  qed
qed

lemma strict_eq_JNum: "strict_eq i (Value (JNum n)) = (i = Num n)"
  by (cases i) auto

lemma strict_eq_JStr: "strict_eq i (Value (JStr t)) = (i = Str t)"
  by (cases i) auto

lemma process_line_keeps_others:
  assumes "\<And>req. strict_eq (id' req) rid \<Longrightarrow> \<not> K req"
    and "get_id response = Some rid" and "parse line = Some response"
  shows "filter K (requestQueue (process_line parse line s)) = filter K (requestQueue s)"
  using process_line_cases [of parse line s] assms by auto

lemma process_line_calls:
  assumes "get_id response = Some rid" and "parse line = Some response"
  shows "calls (process_line parse line s) = calls s
       \<or> (\<exists>req \<in> set (requestQueue s). strict_eq (id' req) rid
             \<and> calls (process_line parse line s) = calls s @ [Resolve (promise req) response])"
  using process_line_cases [of parse line s] assms by auto

subsection \<open>What the handlers leave alone\<close>

lemma process_line_other_fields:
  "mcpProcess (process_line parse line s) = mcpProcess s
   \<and> isReady (process_line parse line s) = isReady s
   \<and> buffer (process_line parse line s) = buffer s
   \<and> timers (process_line parse line s) = timers s
   \<and> now (process_line parse line s) = now s
   \<and> promises (process_line parse line s) = promises s
   \<and> running (process_line parse line s) = running s"
  using process_line_cases [of parse line s] by auto

lemma process_lines_other_fields:
  "mcpProcess (process_lines parse lines s) = mcpProcess s
   \<and> isReady (process_lines parse lines s) = isReady s
   \<and> buffer (process_lines parse lines s) = buffer s
   \<and> timers (process_lines parse lines s) = timers s
   \<and> now (process_lines parse lines s) = now s
   \<and> promises (process_lines parse lines s) = promises s
   \<and> running (process_lines parse lines s) = running s"
proof (induction lines arbitrary: s)
  case Nil
  show ?case by simp
next
  case (Cons l ls)
  from Cons [of "process_line parse l s"] process_line_other_fields [of parse l s]
  show ?case by simp
qed

lemma on_stdout_data_other_fields:
  "mcpProcess (on_stdout_data parse data s) = mcpProcess s
   \<and> isReady (on_stdout_data parse data s) = isReady s
   \<and> buffer (on_stdout_data parse data s) = snd (frame (buffer s) data)
   \<and> timers (on_stdout_data parse data s) = timers s
   \<and> now (on_stdout_data parse data s) = now s
   \<and> promises (on_stdout_data parse data s) = promises s
   \<and> running (on_stdout_data parse data s) = running s"
  using process_lines_other_fields [of parse "fst (frame (buffer s) data)" "s\<lparr>buffer := snd (frame (buffer s) data)\<rparr>"]
  by (simp add: on_stdout_data_def case_prod_unfold Let_def)

lemma on_timeout_isReady: "isReady (on_timeout rid p s) = isReady s"
  by (simp add: on_timeout_def Let_def)

lemma sendToMCP_isReady: "isReady (sendToMCP request wr s) = isReady s"
  by (cases wr) (simp_all add: sendToMCP_def Let_def)

lemma on_stderr_data_isReady:
  "isReady (on_stderr_data data s)
     = (isReady s \<or> js_includes (js_trim data) ''Server Running'' \<or> js_includes (js_trim data) ''Connected'')"
  by (simp add: on_stderr_data_def Let_def)

subsection \<open>Submitting\<close>

lemma sendToMCP_ok:
  assumes "mcpProcess s \<noteq> None" and "isReady s"
  shows "sendToMCP request WriteOk s
           = s\<lparr>promises := Suc (promises s),
               requestQueue := requestQueue s @ [\<lparr>id' = req_id request, promise = promises s\<rparr>],
               timers := timers s @ [\<lparr>due = now s + 30000,
                                      callback = RequestTimeout (req_id request) (promises s)\<rparr>]\<rparr>"
proof -
  from assms(1) obtain n where n: "mcpProcess s = Some n"
    by auto
  with assms(2) show ?thesis
    by (simp add: sendToMCP_def Let_def)
qed

lemma sendToMCP_throws:
  assumes "mcpProcess s \<noteq> None" and "isReady s"
    and "requestQueue s @ [\<lparr>id' = req_id request, promise = promises s\<rparr>] = pre @ x # post"
    and "\<forall>y \<in> set pre. id' y \<noteq> req_id request" and "id' x = req_id request"
  shows "sendToMCP request (WriteThrows e) s
           = s\<lparr>promises := Suc (promises s),
               requestQueue := pre @ post,
               calls := calls s @ [Reject (promises s) e],
               timers := timers s @ [\<lparr>due = now s + 30000,
                                      callback = RequestTimeout (req_id request) (promises s)\<rparr>]\<rparr>"
proof -
  from assms(1) obtain n where n: "mcpProcess s = Some n"
    by auto
  from assms(3-5) have "findIndex (\<lambda>req. id' req = req_id request)
      (requestQueue s @ [\<lparr>id' = req_id request, promise = promises s\<rparr>]) = int (length pre)"
    using findIndex_first [of pre "\<lambda>req. id' req = req_id request" x post] by simp
  with n assms(2,3) show ?thesis
    by (simp add: sendToMCP_def Let_def splice1_middle)
qed

lemma first_with_id:
  "\<exists>pre x post. q @ [\<lparr>id' = i, promise = p\<rparr>] = pre @ x # post
     \<and> (\<forall>y \<in> set pre. id' y \<noteq> i) \<and> id' x = i"
proof -
  have "\<exists>x \<in> set (q @ [\<lparr>id' = i, promise = p\<rparr>]). id' x = i"
    by simp
  from split_list_first_prop [OF this]
  obtain ys x zs where "q @ [\<lparr>id' = i, promise = p\<rparr>] = ys @ x # zs"
    and "id' x = i" and "\<forall>y \<in> set ys. id' y \<noteq> i"
    by blast
  then show ?thesis
    by blast
qed

subsection \<open>Promises that nothing can settle\<close>

lemma on_timeout_cases:
  "on_timeout rid q s = s
   \<or> (\<exists>pre e post. requestQueue s = pre @ e # post
         \<and> on_timeout rid q s
             = s\<lparr>requestQueue := pre @ post, calls := calls s @ [Reject q (Error ''Request timeout'')]\<rparr>)"
proof (cases "findIndex (\<lambda>req. id' req = rid) (requestQueue s) = - 1")
  case True
  then show ?thesis by (simp add: on_timeout_def)
next
  case False
  then obtain pre e post where q: "requestQueue s = pre @ e # post"
    and pre: "\<forall>x \<in> set pre. id' x \<noteq> rid" and e: "id' e = rid"
    using findIndex_split [of "\<lambda>req. id' req = rid" "requestQueue s"] by blast
  have "on_timeout rid q s
         = s\<lparr>requestQueue := pre @ post, calls := calls s @ [Reject q (Error ''Request timeout'')]\<rparr>"
    using q pre e by (rule on_timeout_first)
  with q show ?thesis by blast
qed

lemma calls_on_append: "calls_on p (xs @ ys) = calls_on p xs @ calls_on p ys"
  by (simp add: calls_on_def)

lemma calls_on_rejects:
  "list_all (\<lambda>req. promise req \<noteq> p) q \<Longrightarrow> calls_on p (map (\<lambda>req. Reject (promise req) e) q) = []"
  by (induction q) (simp_all add: calls_on_def)

lemma forgotten_process_line:
  assumes "forgotten p s"
  shows "forgotten p (process_line parse line s)
       \<and> calls_on p (calls (process_line parse line s)) = calls_on p (calls s)"
  using process_line_cases [of parse line s] assms
  by (auto simp: forgotten_def calls_on_def)

lemma forgotten_process_lines:
  assumes "forgotten p s"
  shows "forgotten p (process_lines parse lines s)
       \<and> calls_on p (calls (process_lines parse lines s)) = calls_on p (calls s)"
  using assms
proof (induction lines arbitrary: s)
  case Nil
  then show ?case by simp
next
  case (Cons l ls)
  from forgotten_process_line [OF Cons.prems, of parse l]
  have a: "forgotten p (process_line parse l s)"
    and b: "calls_on p (calls (process_line parse l s)) = calls_on p (calls s)"
    by simp_all
  from Cons.IH [OF a] b show ?case by simp
qed

lemma forgotten_on_stdout_data:
  assumes "forgotten p s"
  shows "forgotten p (on_stdout_data parse data s)
       \<and> calls_on p (calls (on_stdout_data parse data s)) = calls_on p (calls s)"
proof -
  have "forgotten p (s\<lparr>buffer := snd (frame (buffer s) data)\<rparr>)"
    using assms by (simp add: forgotten_def)
  from forgotten_process_lines [OF this, of parse "fst (frame (buffer s) data)"]
  show ?thesis
    by (simp add: on_stdout_data_def case_prod_unfold Let_def)
qed

lemma forgotten_on_timeout:
  assumes "forgotten p s" and "q \<noteq> p"
  shows "forgotten p (on_timeout rid q s)
       \<and> calls_on p (calls (on_timeout rid q s)) = calls_on p (calls s)"
  using on_timeout_cases [of rid q s] assms
  by (auto simp: forgotten_def calls_on_def)

lemma forgotten_startMCPProcess:
  assumes "forgotten p s"
  shows "forgotten p (startMCPProcess s)
       \<and> calls_on p (calls (startMCPProcess s)) = calls_on p (calls s)"
  using assms by (simp add: forgotten_def startMCPProcess_def)

lemma forgotten_on_stderr_data:
  assumes "forgotten p s"
  shows "forgotten p (on_stderr_data data s)
       \<and> calls_on p (calls (on_stderr_data data s)) = calls_on p (calls s)"
  using assms by (simp add: forgotten_def on_stderr_data_def Let_def)

lemma forgotten_on_close:
  assumes "forgotten p s"
  shows "forgotten p (on_close code (s\<lparr>running := False\<rparr>))
       \<and> calls_on p (calls (on_close code (s\<lparr>running := False\<rparr>))) = calls_on p (calls s)"
  using assms by (simp add: forgotten_def on_close_def calls_on_append calls_on_rejects)

lemma forgotten_sendToMCP:
  assumes "forgotten p s"
  shows "forgotten p (sendToMCP request wr s)
       \<and> calls_on p (calls (sendToMCP request wr s)) = calls_on p (calls s)"
proof (cases "mcpProcess s = None \<or> \<not> isReady s")
  case True
  with assms show ?thesis
    by (auto simp: sendToMCP_def Let_def forgotten_def calls_on_def)
next
  case False
  then have ready: "mcpProcess s \<noteq> None" "isReady s"
    by simp_all
  show ?thesis
  proof (cases wr)
    case WriteOk
    with assms show ?thesis
      by (simp add: sendToMCP_ok [OF ready] forgotten_def)
  next
    case (WriteThrows e)
    obtain pre x post
      where split: "requestQueue s @ [\<lparr>id' = req_id request, promise = promises s\<rparr>] = pre @ x # post"
        and pre: "\<forall>y \<in> set pre. id' y \<noteq> req_id request" and x: "id' x = req_id request"
      using first_with_id [of "requestQueue s" "req_id request" "promises s"] by blast
    have "list_all (\<lambda>req. promise req \<noteq> p) (requestQueue s @ [\<lparr>id' = req_id request, promise = promises s\<rparr>])"
      using assms by (simp add: forgotten_def)
    then have rest: "list_all (\<lambda>req. promise req \<noteq> p) (pre @ post)"
      unfolding split by simp
    from assms rest show ?thesis
      unfolding WriteThrows sendToMCP_throws [OF ready split pre x]
      by (simp add: forgotten_def calls_on_def)
  qed
qed

lemma list_all_splice1: "list_all P xs \<Longrightarrow> list_all P (splice1 k xs)"
  using set_splice1 [of k xs] by (auto simp: list_all_iff)

lemma forgotten_step:
  assumes "forgotten p s"
  shows "forgotten p (step parse ev s)
       \<and> calls_on p (calls (step parse ev s)) = calls_on p (calls s)"
proof (cases ev)
  case Start
  with forgotten_startMCPProcess [OF assms] assms show ?thesis by simp
next
  case (Stdout data)
  with forgotten_on_stdout_data [OF assms] assms show ?thesis by simp
next
  case (Stderr data)
  with forgotten_on_stderr_data [OF assms] assms show ?thesis by simp
next
  case (Close code)
  with forgotten_on_close [OF assms] assms show ?thesis by simp
next
  case ProcError
  with assms show ?thesis by (simp add: on_error_def)
next
  case (Send request wr)
  with forgotten_sendToMCP [OF assms] show ?thesis by simp
next
  case (Tick d)
  with assms show ?thesis by (simp add: forgotten_def)
next
  case (Fire k)
  show ?thesis
  proof (cases "k < length (timers s) \<and> due (timers s ! k) \<le> now s")
    case False
    with Fire assms show ?thesis by auto
  next
    case True
    have rest: "forgotten p (s\<lparr>timers := splice1 k (timers s)\<rparr>)"
      using assms by (simp add: forgotten_def list_all_splice1)
    show ?thesis
    proof (cases "callback (timers s ! k)")
      case Restart
      with Fire True forgotten_startMCPProcess [OF rest] show ?thesis by simp
    next
      case (RequestTimeout rid q)
      have "timers s ! k \<in> set (timers s)"
        using True by simp
      with assms RequestTimeout have "q \<noteq> p"
        by (auto simp: forgotten_def list_all_iff)
      from forgotten_on_timeout [OF rest this, of rid] Fire True RequestTimeout
      show ?thesis by simp
    qed
  qed
qed

lemma forgotten_run:
  assumes "forgotten p s"
  shows "forgotten p (run parse evs s)
       \<and> calls_on p (calls (run parse evs s)) = calls_on p (calls s)"
  using assms
proof (induction evs arbitrary: s)
  case Nil
  then show ?case by simp
next
  case (Cons ev evs)
  from forgotten_step [OF Cons.prems, of parse ev]
  have a: "forgotten p (step parse ev s)"
    and b: "calls_on p (calls (step parse ev s)) = calls_on p (calls s)"
    by simp_all
  from Cons.IH [OF a] b show ?case by simp
qed

subsection \<open>Evaluating event sequences\<close>

lemmas eval_defs = init_def startMCPProcess_def on_stderr_data_def trim_defs decode_defs
  sendToMCP_def on_timeout_def on_close_def on_stdout_data_def process_line_def frame_def js_pop_def
  splice1_def newline_def Let_def

subsection \<open>The buffer over a sequence of chunks\<close>

lemma buffer_after_chunks:
  assumes "running s"
  shows "buffer (run parse (map Stdout chunks) s) = snd (feed (buffer s) chunks)"
  using assms
proof (induction chunks arbitrary: s)
  case Nil
  show ?case by simp
next
  case (Cons c cs)
  let ?s = "on_stdout_data parse c s"
  have run: "running ?s" and buf: "buffer ?s = snd (frame (buffer s) c)"
    using Cons.prems by (simp_all add: on_stdout_data_other_fields)
  from Cons.IH [OF run] buf Cons.prems show ?case
    by (simp add: case_prod_unfold Let_def)
qed

section \<open>Properties\<close>

subsection \<open>Death of the child\<close>

text \<open>
  C2. Whenever the termination of the child is observed, whatever the exit code:
  readiness is cleared, every pending request is rejected with the error
  "MCP process died" (one call of \<^verbatim>\<open>reject\<close> per entry, in queue order, so three
  pending requests give three rejections), the queue becomes empty, and exactly one
  restart is armed, due one second (1000 ms) later.
\<close>

theorem on_close_rejects_all:
  "isReady (on_close code s) = False
   \<and> calls (on_close code s)
       = calls s @ map (\<lambda>req. Reject (promise req) (Error ''MCP process died'')) (requestQueue s)
   \<and> length (calls (on_close code s)) = length (calls s) + length (requestQueue s)
   \<and> requestQueue (on_close code s) = []
   \<and> length (requestQueue (on_close code s)) = 0
   \<and> timers (on_close code s) = timers s @ [\<lparr>due = now s + 1000, callback = Restart\<rparr>]"
  by (simp add: on_close_def)

subsection \<open>Submitting while not ready\<close>

text \<open>
  C3. A request submitted while the relay is not ready (no child, or readiness not set)
  fails at once with the error "MCP not ready" and creates no pending entry: the queue
  after the call is the queue before it, and no timer is armed.
\<close>

theorem sendToMCP_not_ready:
  assumes "mcpProcess s = None \<or> \<not> isReady s"
  shows "requestQueue (sendToMCP request wr s) = requestQueue s
       \<and> calls (sendToMCP request wr s) = calls s @ [Reject (promises s) (Error ''MCP not ready'')]
       \<and> timers (sendToMCP request wr s) = timers s"
  using assms by (auto simp add: sendToMCP_def Let_def)

theorem sendToMCP_not_ready_witness:
  "(mcpProcess init = None \<or> \<not> isReady init)
   \<and> requestQueue (sendToMCP \<lparr>req_id = Str ''a'', params = JNull\<rparr> WriteOk init) = requestQueue init
   \<and> calls (sendToMCP \<lparr>req_id = Str ''a'', params = JNull\<rparr> WriteOk init)
       = calls init @ [Reject (promises init) (Error ''MCP not ready'')]
   \<and> timers (sendToMCP \<lparr>req_id = Str ''a'', params = JNull\<rparr> WriteOk init) = timers init"
proof -
  have h: "mcpProcess init = None \<or> \<not> isReady init"
    by (simp add: init_def)
  show ?thesis
    using h sendToMCP_not_ready [OF h, of "\<lparr>req_id = Str ''a'', params = JNull\<rparr>" WriteOk]
    by simp
qed

subsection \<open>The Line Framer\<close>

text \<open>
  C4 asks that a line delivered in two chunks is emitted as exactly one complete line,
  equal to the full concatenation. The framer keeps the incomplete line from one chunk to
  the next, but not the incomplete character: each chunk is decoded alone. The line
  \<^verbatim>\<open>{"id":"\<close> C3 A9 \<^verbatim>\<open>"}\<close>, whose id is the letter e with an acute accent, arrives cut
  between the two bytes of that letter. The first chunk leaves a buffer that ends in a
  replacement character, the second starts with another, and the one line that comes out
  holds two replacement characters where the letter was: it is not the concatenation of
  the chunks. The same bytes in a single chunk come out as the line that was sent.
\<close>

theorem split_character_corrupts_line:
  \<open>let a = ''{"id":"'' @ [CHR 0xC3];
       b = CHR 0xA9 # ''"}''
   in toString (a @ b @ [newline]) = a @ b @ [newline]
      \<and> newline \<notin> set (a @ b)
      \<and> feed [] [a @ b @ [newline]] = ([a @ b], [])
      \<and> frame [] a = ([], ''{"id":"'' @ replacement)
      \<and> frame (''{"id":"'' @ replacement) (b @ [newline])
          = ([''{"id":"'' @ replacement @ replacement @ ''"}''], [])
      \<and> feed [] [a, b @ [newline]] = ([''{"id":"'' @ replacement @ replacement @ ''"}''], [])
      \<and> fst (feed [] [a, b @ [newline]]) \<noteq> [a @ b]\<close>
  by (simp add: frame_def js_pop_def decode_defs newline_def Let_def)

text \<open>
  C10 asks that the emitted lines, each followed by one terminator, followed by the final
  buffer, are exactly the concatenation of the chunks. On the same two chunks they are
  not: twelve bytes went in, the two bytes of the letter are gone, and two replacement
  characters stand in their place. What the framer conserves is the concatenation of the
  texts of the chunks, each decoded alone.
\<close>

theorem split_character_loses_input:
  \<open>let c1 = ''{"id":"'' @ [CHR 0xC3];
       c2 = CHR 0xA9 # ''"}'' @ [newline];
       out = concat (map (\<lambda>l. l @ [newline]) (fst (feed [] [c1, c2]))) @ snd (feed [] [c1, c2])
   in out = ''{"id":"'' @ replacement @ replacement @ ''"}'' @ [newline]
      \<and> out = toString c1 @ toString c2
      \<and> out \<noteq> concat [c1, c2]
      \<and> out \<noteq> toString (concat [c1, c2])
      \<and> toString (concat [c1, c2]) = concat [c1, c2]\<close>
  by (simp add: frame_def js_pop_def decode_defs newline_def Let_def)

subsection \<open>Lines that settle nothing\<close>

text \<open>
  C9. A complete line that is empty or only white space, that does not parse, or that
  parses but carries an id equal to the id of no pending entry leaves the request queue
  as it was: no entry is removed, and no \<^verbatim>\<open>resolve\<close> or \<^verbatim>\<open>reject\<close> is called.
\<close>

theorem process_line_leaves_queue:
  assumes "js_trim line = [] \<or> parse line = None
           \<or> (\<exists>response rid. parse line = Some response \<and> get_id response = Some rid
                 \<and> (\<forall>req \<in> set (requestQueue s). \<not> strict_eq (id' req) rid))"
  shows "requestQueue (process_line parse line s) = requestQueue s
       \<and> calls (process_line parse line s) = calls s
       \<and> process_line parse line s = s"
proof -
  have "process_line parse line s = s"
    using assms
  proof (elim disjE exE conjE)
    assume "js_trim line = []"
    then show ?thesis by (simp add: process_line_def)
  next
    assume "parse line = None"
    then show ?thesis by (simp add: process_line_def)
  next
    fix response rid
    assume "parse line = Some response" and "get_id response = Some rid"
      and "\<forall>req \<in> set (requestQueue s). \<not> strict_eq (id' req) rid"
    then show ?thesis by (rule process_line_none)
  qed
  then show ?thesis by simp
qed

theorem process_line_leaves_queue_witness:
  \<open>js_trim [CHR '' '', CHR 0x09] = []
   \<and> process_line (map_of [(''{"id":7}'', JObj [(''id'', JNum 7)])]) [CHR '' '', CHR 0x09]
         (init\<lparr>requestQueue := [\<lparr>id' = Num 1, promise = 0\<rparr>]\<rparr>)
       = init\<lparr>requestQueue := [\<lparr>id' = Num 1, promise = 0\<rparr>]\<rparr>
   \<and> map_of [(''{"id":7}'', JObj [(''id'', JNum 7)])] ''[MCP] listening'' = None
   \<and> process_line (map_of [(''{"id":7}'', JObj [(''id'', JNum 7)])]) ''[MCP] listening''
         (init\<lparr>requestQueue := [\<lparr>id' = Num 1, promise = 0\<rparr>]\<rparr>)
       = init\<lparr>requestQueue := [\<lparr>id' = Num 1, promise = 0\<rparr>]\<rparr>
   \<and> get_id (JObj [(''id'', JNum 7)]) = Some (Value (JNum 7))
   \<and> \<not> strict_eq (Num 1) (Value (JNum 7))
   \<and> process_line (map_of [(''{"id":7}'', JObj [(''id'', JNum 7)])]) ''{"id":7}''
         (init\<lparr>requestQueue := [\<lparr>id' = Num 1, promise = 0\<rparr>]\<rparr>)
       = init\<lparr>requestQueue := [\<lparr>id' = Num 1, promise = 0\<rparr>]\<rparr>\<close>
proof -
  let ?parse = \<open>map_of [(''{"id":7}'', JObj [(''id'', JNum 7)])]\<close>
  let ?s = "init\<lparr>requestQueue := [\<lparr>id' = Num 1, promise = 0\<rparr>]\<rparr>"
  have blank: "js_trim [CHR '' '', CHR 0x09] = []"
    by (simp add: trim_defs)
  have log: "?parse ''[MCP] listening'' = None"
    by simp
  have other: \<open>\<exists>response rid. ?parse ''{"id":7}'' = Some response \<and> get_id response = Some rid
                 \<and> (\<forall>req \<in> set (requestQueue ?s). \<not> strict_eq (id' req) rid)\<close>
    by simp
  show ?thesis
    using blank log
      process_line_leaves_queue [of "[CHR '' '', CHR 0x09]" ?parse ?s, OF disjI1, OF blank]
      process_line_leaves_queue [of "''[MCP] listening''" ?parse ?s, OF disjI2, OF disjI1, OF log]
      process_line_leaves_queue [of \<open>''{"id":7}''\<close> ?parse ?s, OF disjI2, OF disjI2, OF other]
    by simp
qed

subsection \<open>Ids are matched with their type\<close>

text \<open>
  C5. A response is matched to a pending entry by strict equality of the ids, type
  included: a numeric id never equals a string id, so a line whose id is a number leaves
  every entry with a string id in the queue and calls nothing on it, and the other way
  round. With the two requests of ids \<open>Num n\<close> and \<open>Str t\<close> pending together (for
  instance the number 1 and the string "1"), the response for either resolves that one
  and leaves the entry of the other; the two responses, in either order, resolve both.
\<close>

theorem typed_id_matching:
  assumes "js_trim l1 \<noteq> []" and "parse l1 = Some r1" and "get_id r1 = Some (Value (JNum n))"
    and "js_trim l2 \<noteq> []" and "parse l2 = Some r2" and "get_id r2 = Some (Value (JStr t))"
  shows "\<not> strict_eq (Num n) (Value (JStr t)) \<and> \<not> strict_eq (Str t) (Value (JNum n))
       \<and> filter (\<lambda>req. case id' req of Str _ \<Rightarrow> True | Num _ \<Rightarrow> False) (requestQueue (process_line parse l1 s))
           = filter (\<lambda>req. case id' req of Str _ \<Rightarrow> True | Num _ \<Rightarrow> False) (requestQueue s)
       \<and> (calls (process_line parse l1 s) = calls s
            \<or> (\<exists>req \<in> set (requestQueue s). id' req = Num n
                  \<and> calls (process_line parse l1 s) = calls s @ [Resolve (promise req) r1]))
       \<and> filter (\<lambda>req. case id' req of Num _ \<Rightarrow> True | Str _ \<Rightarrow> False) (requestQueue (process_line parse l2 s))
           = filter (\<lambda>req. case id' req of Num _ \<Rightarrow> True | Str _ \<Rightarrow> False) (requestQueue s)
       \<and> (calls (process_line parse l2 s) = calls s
            \<or> (\<exists>req \<in> set (requestQueue s). id' req = Str t
                  \<and> calls (process_line parse l2 s) = calls s @ [Resolve (promise req) r2]))
       \<and> (requestQueue s = [\<lparr>id' = Num n, promise = p\<rparr>, \<lparr>id' = Str t, promise = q\<rparr>] \<longrightarrow>
            process_line parse l1 s
              = s\<lparr>requestQueue := [\<lparr>id' = Str t, promise = q\<rparr>], calls := calls s @ [Resolve p r1]\<rparr>
          \<and> process_line parse l2 s
              = s\<lparr>requestQueue := [\<lparr>id' = Num n, promise = p\<rparr>], calls := calls s @ [Resolve q r2]\<rparr>
          \<and> process_line parse l2 (process_line parse l1 s)
              = s\<lparr>requestQueue := [], calls := calls s @ [Resolve p r1, Resolve q r2]\<rparr>
          \<and> process_line parse l1 (process_line parse l2 s)
              = s\<lparr>requestQueue := [], calls := calls s @ [Resolve q r2, Resolve p r1]\<rparr>)"
proof -
  have keep1: "filter (\<lambda>req. case id' req of Str _ \<Rightarrow> True | Num _ \<Rightarrow> False) (requestQueue (process_line parse l1 s))
           = filter (\<lambda>req. case id' req of Str _ \<Rightarrow> True | Num _ \<Rightarrow> False) (requestQueue s)"
    by (rule process_line_keeps_others [where rid = "Value (JNum n)" and response = r1])
      (simp_all add: strict_eq_JNum assms)
  have keep2: "filter (\<lambda>req. case id' req of Num _ \<Rightarrow> True | Str _ \<Rightarrow> False) (requestQueue (process_line parse l2 s))
           = filter (\<lambda>req. case id' req of Num _ \<Rightarrow> True | Str _ \<Rightarrow> False) (requestQueue s)"
    by (rule process_line_keeps_others [where rid = "Value (JStr t)" and response = r2])
      (simp_all add: strict_eq_JStr assms)
  have calls1: "calls (process_line parse l1 s) = calls s
            \<or> (\<exists>req \<in> set (requestQueue s). id' req = Num n
                  \<and> calls (process_line parse l1 s) = calls s @ [Resolve (promise req) r1])"
    using process_line_calls [where parse = parse and line = l1 and s = s, OF assms(3) assms(2)]
    by (simp add: strict_eq_JNum)
  have calls2: "calls (process_line parse l2 s) = calls s
            \<or> (\<exists>req \<in> set (requestQueue s). id' req = Str t
                  \<and> calls (process_line parse l2 s) = calls s @ [Resolve (promise req) r2])"
    using process_line_calls [where parse = parse and line = l2 and s = s, OF assms(6) assms(5)]
    by (simp add: strict_eq_JStr)
  have both: "process_line parse l1 s
              = s\<lparr>requestQueue := [\<lparr>id' = Str t, promise = q\<rparr>], calls := calls s @ [Resolve p r1]\<rparr>
          \<and> process_line parse l2 s
              = s\<lparr>requestQueue := [\<lparr>id' = Num n, promise = p\<rparr>], calls := calls s @ [Resolve q r2]\<rparr>
          \<and> process_line parse l2 (process_line parse l1 s)
              = s\<lparr>requestQueue := [], calls := calls s @ [Resolve p r1, Resolve q r2]\<rparr>
          \<and> process_line parse l1 (process_line parse l2 s)
              = s\<lparr>requestQueue := [], calls := calls s @ [Resolve q r2, Resolve p r1]\<rparr>"
    if queue: "requestQueue s = [\<lparr>id' = Num n, promise = p\<rparr>, \<lparr>id' = Str t, promise = q\<rparr>]"
  proof -
    have a: "process_line parse l1 s
              = s\<lparr>requestQueue := [\<lparr>id' = Str t, promise = q\<rparr>], calls := calls s @ [Resolve p r1]\<rparr>"
      using process_line_first [of l1 parse r1 "Value (JNum n)" s "[]" "\<lparr>id' = Num n, promise = p\<rparr>"
          "[\<lparr>id' = Str t, promise = q\<rparr>]"] assms queue
      by simp
    have b: "process_line parse l2 s
              = s\<lparr>requestQueue := [\<lparr>id' = Num n, promise = p\<rparr>], calls := calls s @ [Resolve q r2]\<rparr>"
      using process_line_first [of l2 parse r2 "Value (JStr t)" s "[\<lparr>id' = Num n, promise = p\<rparr>]"
          "\<lparr>id' = Str t, promise = q\<rparr>" "[]"] assms queue
      by simp
    have c: "process_line parse l2 (s\<lparr>requestQueue := [\<lparr>id' = Str t, promise = q\<rparr>], calls := calls s @ [Resolve p r1]\<rparr>)
              = s\<lparr>requestQueue := [], calls := calls s @ [Resolve p r1, Resolve q r2]\<rparr>"
      using process_line_first [of l2 parse r2 "Value (JStr t)"
          "s\<lparr>requestQueue := [\<lparr>id' = Str t, promise = q\<rparr>], calls := calls s @ [Resolve p r1]\<rparr>"
          "[]" "\<lparr>id' = Str t, promise = q\<rparr>" "[]"] assms
      by simp
    have d: "process_line parse l1 (s\<lparr>requestQueue := [\<lparr>id' = Num n, promise = p\<rparr>], calls := calls s @ [Resolve q r2]\<rparr>)
              = s\<lparr>requestQueue := [], calls := calls s @ [Resolve q r2, Resolve p r1]\<rparr>"
      using process_line_first [of l1 parse r1 "Value (JNum n)"
          "s\<lparr>requestQueue := [\<lparr>id' = Num n, promise = p\<rparr>], calls := calls s @ [Resolve q r2]\<rparr>"
          "[]" "\<lparr>id' = Num n, promise = p\<rparr>" "[]"] assms
      by simp
    from a b c d show ?thesis by simp
  qed
  have types: "\<not> strict_eq (Num n) (Value (JStr t)) \<and> \<not> strict_eq (Str t) (Value (JNum n))"
    by simp
  from types keep1 keep2 calls1 calls2 both show ?thesis
    by blast
qed

theorem typed_id_matching_witness:
  \<open>js_trim ''{"id":1,"result":"a"}'' \<noteq> []
   \<and> js_trim ''{"id":"1","result":"b"}'' \<noteq> []
   \<and> get_id (JObj [(''id'', JNum 1), (''result'', JStr ''a'')]) = Some (Value (JNum 1))
   \<and> get_id (JObj [(''id'', JStr ''1''), (''result'', JStr ''b'')]) = Some (Value (JStr ''1''))
   \<and> process_line
         (map_of [(''{"id":1,"result":"a"}'', JObj [(''id'', JNum 1), (''result'', JStr ''a'')]),
                  (''{"id":"1","result":"b"}'', JObj [(''id'', JStr ''1''), (''result'', JStr ''b'')])])
         ''{"id":"1","result":"b"}''
         (init\<lparr>requestQueue := [\<lparr>id' = Num 1, promise = 0\<rparr>, \<lparr>id' = Str ''1'', promise = 1\<rparr>]\<rparr>)
       = init\<lparr>requestQueue := [\<lparr>id' = Num 1, promise = 0\<rparr>],
              calls := [Resolve 1 (JObj [(''id'', JStr ''1''), (''result'', JStr ''b'')])]\<rparr>
   \<and> process_line
         (map_of [(''{"id":1,"result":"a"}'', JObj [(''id'', JNum 1), (''result'', JStr ''a'')]),
                  (''{"id":"1","result":"b"}'', JObj [(''id'', JStr ''1''), (''result'', JStr ''b'')])])
         ''{"id":1,"result":"a"}''
         (init\<lparr>requestQueue := [\<lparr>id' = Num 1, promise = 0\<rparr>, \<lparr>id' = Str ''1'', promise = 1\<rparr>]\<rparr>)
       = init\<lparr>requestQueue := [\<lparr>id' = Str ''1'', promise = 1\<rparr>],
              calls := [Resolve 0 (JObj [(''id'', JNum 1), (''result'', JStr ''a'')])]\<rparr>\<close>
proof -
  let ?r1 = "JObj [(''id'', JNum 1), (''result'', JStr ''a'')]"
  let ?r2 = "JObj [(''id'', JStr ''1''), (''result'', JStr ''b'')]"
  let ?parse = \<open>map_of [(''{"id":1,"result":"a"}'', ?r1), (''{"id":"1","result":"b"}'', ?r2)]\<close>
  let ?s = "init\<lparr>requestQueue := [\<lparr>id' = Num 1, promise = 0\<rparr>, \<lparr>id' = Str ''1'', promise = 1\<rparr>]\<rparr>"
  have t1: \<open>js_trim ''{"id":1,"result":"a"}'' \<noteq> []\<close>
    by (simp add: trim_defs)
  have t2: \<open>js_trim ''{"id":"1","result":"b"}'' \<noteq> []\<close>
    by (simp add: trim_defs)
  have p1: \<open>?parse ''{"id":1,"result":"a"}'' = Some ?r1\<close>
    by simp
  have p2: \<open>?parse ''{"id":"1","result":"b"}'' = Some ?r2\<close>
    by simp
  have i1: "get_id ?r1 = Some (Value (JNum 1))"
    by simp
  have i2: "get_id ?r2 = Some (Value (JStr ''1''))"
    by simp
  have queue: "requestQueue ?s = [\<lparr>id' = Num 1, promise = 0\<rparr>, \<lparr>id' = Str ''1'', promise = 1\<rparr>]"
    by simp
  from typed_id_matching [OF t1 p1 i1 t2 p2 i2, of ?s 0 1] queue
  have a: \<open>process_line ?parse ''{"id":1,"result":"a"}'' ?s
             = ?s\<lparr>requestQueue := [\<lparr>id' = Str ''1'', promise = 1\<rparr>], calls := calls ?s @ [Resolve 0 ?r1]\<rparr>\<close>
    and b: \<open>process_line ?parse ''{"id":"1","result":"b"}'' ?s
             = ?s\<lparr>requestQueue := [\<lparr>id' = Num 1, promise = 0\<rparr>], calls := calls ?s @ [Resolve 1 ?r2]\<rparr>\<close>
    by blast+
  show ?thesis
    unfolding a b using t1 t2 i1 i2 by (simp add: init_def)
qed

subsection \<open>Readiness\<close>

text \<open>
  C8, as the code has it. Readiness is set only by the handler of the diagnostic stream,
  and only when the trimmed chunk contains "Server Running" or contains "Connected":
  either of the two markers sets it, a chunk with neither leaves it as it was, and no
  other event turns it on.
\<close>

theorem readiness_only_from_markers:
  "isReady (on_stderr_data data s)
     = (isReady s \<or> js_includes (js_trim data) ''Server Running'' \<or> js_includes (js_trim data) ''Connected'')
   \<and> (\<not> isReady s \<and> isReady (step parse ev s) \<longrightarrow>
        (\<exists>chunk. ev = Stderr chunk
           \<and> (js_includes (js_trim chunk) ''Server Running'' \<or> js_includes (js_trim chunk) ''Connected'')))"
proof -
  have "\<exists>chunk. ev = Stderr chunk
           \<and> (js_includes (js_trim chunk) ''Server Running'' \<or> js_includes (js_trim chunk) ''Connected'')"
    if off: "\<not> isReady s" and on: "isReady (step parse ev s)"
  proof (cases ev)
    case Start
    with off on show ?thesis by (simp add: startMCPProcess_def split: if_splits)
  next
    case (Stdout data)
    with off on show ?thesis by (simp add: on_stdout_data_other_fields split: if_splits)
  next
    case (Stderr data)
    with off on show ?thesis by (simp add: on_stderr_data_isReady split: if_splits)
  next
    case (Close code)
    with off on show ?thesis by (simp add: on_close_def split: if_splits)
  next
    case ProcError
    with off on show ?thesis by (simp add: on_error_def split: if_splits)
  next
    case (Send request wr)
    with off on show ?thesis by (simp add: sendToMCP_isReady)
  next
    case (Tick d)
    with off on show ?thesis by simp
  next
    case (Fire k)
    show ?thesis
    proof (cases "callback (timers s ! k)")
      case (RequestTimeout rid p)
      with Fire off on show ?thesis by (simp add: on_timeout_isReady split: if_splits)
    next
      case Restart
      with Fire off on show ?thesis by (simp add: startMCPProcess_def split: if_splits)
    qed
  qed
  then show ?thesis
    by (simp add: on_stderr_data_isReady)
qed

theorem readiness_only_from_markers_witness:
  "\<not> isReady (startMCPProcess init)
   \<and> isReady (step Map.empty (Stderr ''Database Connected (Pool Ready)'') (startMCPProcess init))
   \<and> (\<exists>chunk. Stderr ''Database Connected (Pool Ready)'' = Stderr chunk
         \<and> (js_includes (js_trim chunk) ''Server Running'' \<or> js_includes (js_trim chunk) ''Connected''))"
proof -
  have off: "\<not> isReady (startMCPProcess init)"
    by (simp add: startMCPProcess_def init_def)
  have on: "isReady (step Map.empty (Stderr ''Database Connected (Pool Ready)'') (startMCPProcess init))"
    by (simp add: startMCPProcess_def init_def on_stderr_data_def trim_defs)
  from readiness_only_from_markers
    [of "''Database Connected (Pool Ready)''" "startMCPProcess init" Map.empty
      "Stderr ''Database Connected (Pool Ready)''"] off on
  show ?thesis by blast
qed

text \<open>
  The claim speaks of a single marker. Each of the two markers sets readiness in a chunk
  that does not contain the other one: the lines the worker prints when its database
  pool is up and when its server runs.
\<close>

theorem single_marker_counterexample:
  "\<not> isReady init
   \<and> isReady (on_stderr_data ''Database Connected (Pool Ready)'' init)
   \<and> \<not> js_includes (js_trim ''Database Connected (Pool Ready)'') ''Server Running''
   \<and> isReady (on_stderr_data ''Clarity Fast MCP Server Running'' init)
   \<and> \<not> js_includes (js_trim ''Clarity Fast MCP Server Running'') ''Connected''"
  by (simp add: init_def on_stderr_data_def trim_defs)

subsection \<open>A write that throws\<close>

text \<open>
  C7, as the code has it. When the write of the request line throws, the first pending
  entry that carries the id of the request is removed at once, and the request fails with
  the thrown error. When no older pending entry carries that id, the entry removed is the
  one just registered: the queue is what it was before the call, and holds no entry of
  that id for the timeout to reject later.
\<close>

theorem sendToMCP_write_failure:
  assumes "mcpProcess s \<noteq> None" and "isReady s"
  shows "calls (sendToMCP request (WriteThrows e) s) = calls s @ [Reject (promises s) e]
       \<and> (\<exists>pre x post.
             requestQueue s @ [\<lparr>id' = req_id request, promise = promises s\<rparr>] = pre @ x # post
             \<and> (\<forall>y \<in> set pre. id' y \<noteq> req_id request) \<and> id' x = req_id request
             \<and> requestQueue (sendToMCP request (WriteThrows e) s) = pre @ post)
       \<and> ((\<forall>y \<in> set (requestQueue s). id' y \<noteq> req_id request) \<longrightarrow>
             requestQueue (sendToMCP request (WriteThrows e) s) = requestQueue s
             \<and> (\<forall>y \<in> set (requestQueue (sendToMCP request (WriteThrows e) s)). id' y \<noteq> req_id request))"
proof -
  obtain pre x post
    where split: "requestQueue s @ [\<lparr>id' = req_id request, promise = promises s\<rparr>] = pre @ x # post"
      and pre: "\<forall>y \<in> set pre. id' y \<noteq> req_id request" and x: "id' x = req_id request"
    using first_with_id [of "requestQueue s" "req_id request" "promises s"] by blast
  have after: "sendToMCP request (WriteThrows e) s
           = s\<lparr>promises := Suc (promises s),
               requestQueue := pre @ post,
               calls := calls s @ [Reject (promises s) e],
               timers := timers s @ [\<lparr>due = now s + 30000,
                                      callback = RequestTimeout (req_id request) (promises s)\<rparr>]\<rparr>"
    using assms split pre x by (rule sendToMCP_throws)
  have unique: "requestQueue (sendToMCP request (WriteThrows e) s) = requestQueue s"
    if "\<forall>y \<in> set (requestQueue s). id' y \<noteq> req_id request"
    using sendToMCP_throws [OF assms, of request "requestQueue s"
        "\<lparr>id' = req_id request, promise = promises s\<rparr>" "[]" e] that
    by simp
  from after split pre x unique show ?thesis
    by auto
qed

theorem sendToMCP_write_failure_witness:
  "mcpProcess (run Map.empty [Start, Stderr ''Connected''] init) \<noteq> None
   \<and> isReady (run Map.empty [Start, Stderr ''Connected''] init)
   \<and> requestQueue (sendToMCP \<lparr>req_id = Str ''a'', params = JNull\<rparr> (WriteThrows (Error ''write EPIPE''))
        (run Map.empty [Start, Stderr ''Connected''] init)) = []
   \<and> calls (sendToMCP \<lparr>req_id = Str ''a'', params = JNull\<rparr> (WriteThrows (Error ''write EPIPE''))
        (run Map.empty [Start, Stderr ''Connected''] init)) = [Reject 0 (Error ''write EPIPE'')]"
proof -
  let ?s = "run Map.empty [Start, Stderr ''Connected''] init"
  have s: "?s = init\<lparr>mcpProcess := Some 0, isReady := True, running := True\<rparr>"
    by (simp add: init_def startMCPProcess_def on_stderr_data_def trim_defs)
  have p: "mcpProcess ?s \<noteq> None" and r: "isReady ?s"
    unfolding s by simp_all
  from sendToMCP_write_failure [OF p r, of "\<lparr>req_id = Str ''a'', params = JNull\<rparr>" "Error ''write EPIPE''"] p r
  show ?thesis
    unfolding s by (simp add: init_def)
qed

text \<open>
  The claim has no condition on the id. With an older pending request of the same id, the
  entry removed is the older one: the entry just registered (promise 1) stays in the
  queue, already rejected, and the older request (promise 0) has lost its entry.
\<close>

theorem write_failure_counterexample:
  "requestQueue (run Map.empty
       [Start, Stderr ''Connected'',
        Send \<lparr>req_id = Num 1, params = JNull\<rparr> WriteOk,
        Send \<lparr>req_id = Num 1, params = JNull\<rparr> (WriteThrows (Error ''write EPIPE''))] init)
     = [\<lparr>id' = Num 1, promise = 1\<rparr>]
   \<and> calls (run Map.empty
       [Start, Stderr ''Connected'',
        Send \<lparr>req_id = Num 1, params = JNull\<rparr> WriteOk,
        Send \<lparr>req_id = Num 1, params = JNull\<rparr> (WriteThrows (Error ''write EPIPE''))] init)
     = [Reject 1 (Error ''write EPIPE'')]"
  by (simp add: init_def startMCPProcess_def on_stderr_data_def trim_defs
      sendToMCP_def splice1_def Let_def)

subsection \<open>The timeout\<close>

text \<open>
  C6, as the code has it. Every request that \<^verbatim>\<open>sendToMCP\<close> registers arms one timer, due
  30 seconds (30000 ms) after the call, and the timer does nothing before it is due. When
  its callback runs while the entry of the request is still the first pending entry with
  its id, that entry is removed and the request is rejected with "Request timeout", a
  message that contains "timeout". When it runs on the queue as the call left it, the queue
  has its length of before the call again, and is the queue of before the call when no
  older entry has the same id.
\<close>

theorem timeout_rejects_pending:
  assumes "mcpProcess s \<noteq> None" and "isReady s"
  shows "requestQueue (sendToMCP request WriteOk s)
           = requestQueue s @ [\<lparr>id' = req_id request, promise = promises s\<rparr>]
       \<and> timers (sendToMCP request WriteOk s)
           = timers s @ [\<lparr>due = now s + 30000, callback = RequestTimeout (req_id request) (promises s)\<rparr>]
       \<and> (k < length (timers s')
            \<and> timers s' ! k = \<lparr>due = now s + 30000, callback = RequestTimeout (req_id request) (promises s)\<rparr>
            \<and> now s' < now s + 30000 \<longrightarrow> step parse (Fire k) s' = s')
       \<and> (requestQueue s' = pre @ \<lparr>id' = req_id request, promise = promises s\<rparr> # post
            \<and> (\<forall>x \<in> set pre. id' x \<noteq> req_id request) \<longrightarrow>
              run_callback (RequestTimeout (req_id request) (promises s)) s'
                = s'\<lparr>requestQueue := pre @ post,
                      calls := calls s' @ [Reject (promises s) (Error ''Request timeout'')]\<rparr>)
       \<and> js_includes ''Request timeout'' ''timeout''
       \<and> length (requestQueue (run_callback (RequestTimeout (req_id request) (promises s))
                                   (sendToMCP request WriteOk s)))
           = length (requestQueue s)
       \<and> calls (run_callback (RequestTimeout (req_id request) (promises s)) (sendToMCP request WriteOk s))
           = calls s @ [Reject (promises s) (Error ''Request timeout'')]
       \<and> ((\<forall>x \<in> set (requestQueue s). id' x \<noteq> req_id request) \<longrightarrow>
             requestQueue (run_callback (RequestTimeout (req_id request) (promises s))
                             (sendToMCP request WriteOk s))
               = requestQueue s)"
proof -
  let ?e = "\<lparr>id' = req_id request, promise = promises s\<rparr>"
  let ?t = "\<lparr>due = now s + 30000, callback = RequestTimeout (req_id request) (promises s)\<rparr>"
  let ?s1 = "sendToMCP request WriteOk s"
  have sent: "?s1 = s\<lparr>promises := Suc (promises s), requestQueue := requestQueue s @ [?e],
                       timers := timers s @ [?t]\<rparr>"
    using assms by (rule sendToMCP_ok)
  have early: "step parse (Fire k) s' = s'"
    if "k < length (timers s')" and "timers s' ! k = ?t" and "now s' < now s + 30000"
    using that by simp
  have fires: "run_callback (RequestTimeout (req_id request) (promises s)) s'
                = s'\<lparr>requestQueue := pre @ post,
                      calls := calls s' @ [Reject (promises s) (Error ''Request timeout'')]\<rparr>"
    if "requestQueue s' = pre @ ?e # post" and "\<forall>x \<in> set pre. id' x \<noteq> req_id request"
    using on_timeout_first [of s' pre ?e post "req_id request" "promises s"] that by simp
  obtain pre x post where split: "requestQueue s @ [?e] = pre @ x # post"
    and pre: "\<forall>y \<in> set pre. id' y \<noteq> req_id request" and x: "id' x = req_id request"
    using first_with_id [of "requestQueue s" "req_id request" "promises s"] by blast
  have direct: "run_callback (RequestTimeout (req_id request) (promises s)) ?s1
                = ?s1\<lparr>requestQueue := pre @ post,
                      calls := calls ?s1 @ [Reject (promises s) (Error ''Request timeout'')]\<rparr>"
    using on_timeout_first [of ?s1 pre x post "req_id request" "promises s"] split pre x
    by (simp add: sent)
  have "length (requestQueue s @ [?e]) = length (pre @ x # post)"
    using split by simp
  then have len: "length (pre @ post) = length (requestQueue s)"
    by simp
  have unique: "requestQueue (run_callback (RequestTimeout (req_id request) (promises s)) ?s1)
                  = requestQueue s"
    if "\<forall>x \<in> set (requestQueue s). id' x \<noteq> req_id request"
    using on_timeout_first [of ?s1 "requestQueue s" ?e "[]" "req_id request" "promises s"] that
    by (simp add: sent)
  have word: "js_includes ''Request timeout'' ''timeout''"
    by simp
  have queue: "requestQueue ?s1 = requestQueue s @ [?e]" and armed: "timers ?s1 = timers s @ [?t]"
    by (simp_all add: sent)
  have len': "length (requestQueue (run_callback (RequestTimeout (req_id request) (promises s)) ?s1))
           = length (requestQueue s)"
    unfolding direct using len by simp
  have calls': "calls (run_callback (RequestTimeout (req_id request) (promises s)) ?s1)
           = calls s @ [Reject (promises s) (Error ''Request timeout'')]"
    unfolding direct by (simp add: sent)
  from queue armed early fires word len' calls' unique show ?thesis
    by blast
qed

theorem timeout_rejects_pending_witness:
  "mcpProcess (run Map.empty [Start, Stderr ''Connected''] init) \<noteq> None
   \<and> isReady (run Map.empty [Start, Stderr ''Connected''] init)
   \<and> timers (sendToMCP \<lparr>req_id = Str ''a'', params = JStr ''ping''\<rparr> WriteOk
               (run Map.empty [Start, Stderr ''Connected''] init))
       = [\<lparr>due = 30000, callback = RequestTimeout (Str ''a'') 0\<rparr>]
   \<and> requestQueue (run_callback (RequestTimeout (Str ''a'') 0)
        (sendToMCP \<lparr>req_id = Str ''a'', params = JStr ''ping''\<rparr> WriteOk
           (run Map.empty [Start, Stderr ''Connected''] init))) = []
   \<and> calls (run_callback (RequestTimeout (Str ''a'') 0)
        (sendToMCP \<lparr>req_id = Str ''a'', params = JStr ''ping''\<rparr> WriteOk
           (run Map.empty [Start, Stderr ''Connected''] init)))
       = [Reject 0 (Error ''Request timeout'')]"
proof -
  let ?s = "run Map.empty [Start, Stderr ''Connected''] init"
  have s: "?s = init\<lparr>mcpProcess := Some 0, isReady := True, running := True\<rparr>"
    by (simp add: init_def startMCPProcess_def on_stderr_data_def trim_defs)
  have p: "mcpProcess ?s \<noteq> None" and r: "isReady ?s"
    unfolding s by simp_all
  from timeout_rejects_pending [OF p r, of "\<lparr>req_id = Str ''a'', params = JStr ''ping''\<rparr>"] p r
  show ?thesis
    unfolding s by (simp add: init_def)
qed

text \<open>
  The claim lets the timeout decide whenever no matching line has arrived. Here the child
  dies two seconds after the request was sent: the request is rejected with
  "MCP process died", the restart runs after one second, and the timeout of the request
  fires at 30 seconds on an empty queue. No line ever arrived, and the only failure of
  the request has a message without "timeout".
\<close>

theorem timeout_counterexample:
  "calls (run Map.empty
       [Start, Stderr ''Connected'',
        Send \<lparr>req_id = Str ''a'', params = JStr ''ping''\<rparr> WriteOk,
        Tick 2000, Close (Some 1), Tick 1000, Fire 1, Tick 27000, Fire 0] init)
     = [Reject 0 (Error ''MCP process died'')]
   \<and> \<not> js_includes ''MCP process died'' ''timeout''
   \<and> timers (run Map.empty
       [Start, Stderr ''Connected'',
        Send \<lparr>req_id = Str ''a'', params = JStr ''ping''\<rparr> WriteOk,
        Tick 2000, Close (Some 1), Tick 1000, Fire 1, Tick 27000] init)
     = [\<lparr>due = 30000, callback = RequestTimeout (Str ''a'') 0\<rparr>]
   \<and> timers (run Map.empty
       [Start, Stderr ''Connected'',
        Send \<lparr>req_id = Str ''a'', params = JStr ''ping''\<rparr> WriteOk,
        Tick 2000, Close (Some 1), Tick 1000, Fire 1, Tick 27000, Fire 0] init)
     = []"
  by (simp add: init_def startMCPProcess_def on_stderr_data_def trim_defs
      sendToMCP_def on_close_def on_timeout_def splice1_def Let_def)

subsection \<open>A request that is never settled\<close>

text \<open>
  C1 asks that every request submitted while the relay is ready, with an id that no
  pending request has, sees exactly one of \<^verbatim>\<open>resolve\<close> and \<^verbatim>\<open>reject\<close>, once. The code
  does not keep it. A first request with id 1 is resolved by its response after one
  second; its timer stays armed. A second request with id 1 is submitted at 29 seconds,
  to a ready relay with an empty queue. At 30 seconds the timer of the first request
  finds the entry of the second under the same id, removes it, and calls the \<^verbatim>\<open>reject\<close>
  of the first request, which was resolved long ago and stays so. The response to the
  second request arrives at 31 seconds and matches nothing; when the timer of the second
  request fires at 59 seconds the queue is empty. From then on no entry and no timer
  refers to the second request: whatever happens next, neither \<^verbatim>\<open>resolve\<close> nor
  \<^verbatim>\<open>reject\<close> is ever called on it, and its promise stays pending.
\<close>

theorem reused_id_request_never_settles:
  \<open>let parse = map_of [(''{"id":1,"result":"ok"}'', JObj [(''id'', JNum 1), (''result'', JStr ''ok'')])];
       before = run parse
           [Start, Stderr ''Database Connected (Pool Ready)'',
            Send \<lparr>req_id = Num 1, params = JStr ''ping''\<rparr> WriteOk, Tick 1000,
            Stdout ''{"id":1,"result"'', Stdout ('':"ok"}'' @ [newline]), Tick 28000] init;
       sent = step parse (Send \<lparr>req_id = Num 1, params = JStr ''ping''\<rparr> WriteOk) before;
       after = run parse
           [Tick 1000, Fire 0, Tick 1000, Stdout (''{"id":1,"result":"ok"}'' @ [newline]),
            Tick 28000, Fire 0] sent
   in mcpProcess before = Some 0 \<and> isReady before \<and> requestQueue before = []
      \<and> calls before = [Resolve 0 (JObj [(''id'', JNum 1), (''result'', JStr ''ok'')])]
      \<and> requestQueue sent = [\<lparr>id' = Num 1, promise = 1\<rparr>]
      \<and> timers sent = [\<lparr>due = 30000, callback = RequestTimeout (Num 1) 0\<rparr>,
                        \<lparr>due = 59000, callback = RequestTimeout (Num 1) 1\<rparr>]
      \<and> calls after = [Resolve 0 (JObj [(''id'', JNum 1), (''result'', JStr ''ok'')]),
                        Reject 0 (Error ''Request timeout'')]
      \<and> outcome 0 (calls after) = Some (Resolve 0 (JObj [(''id'', JNum 1), (''result'', JStr ''ok'')]))
      \<and> requestQueue after = [] \<and> timers after = [] \<and> now after = 59000
      \<and> calls_on 1 (calls (run parse evs after)) = []
      \<and> outcome 1 (calls (run parse evs after)) = None\<close>
proof -
  let ?parse = \<open>map_of [(''{"id":1,"result":"ok"}'', JObj [(''id'', JNum 1), (''result'', JStr ''ok'')])]\<close>
  let ?r = "JObj [(''id'', JNum 1), (''result'', JStr ''ok'')]"
  let ?before = "\<lparr>mcpProcess = Some 0, requestQueue = [], isReady = True, buffer = [],
         timers = [\<lparr>due = 30000, callback = RequestTimeout (Num 1) 0\<rparr>], now = 29000,
         calls = [Resolve 0 ?r], promises = 1, running = True\<rparr>"
  let ?sent = "\<lparr>mcpProcess = Some 0, requestQueue = [\<lparr>id' = Num 1, promise = 1\<rparr>], isReady = True,
         buffer = [],
         timers = [\<lparr>due = 30000, callback = RequestTimeout (Num 1) 0\<rparr>,
                   \<lparr>due = 59000, callback = RequestTimeout (Num 1) 1\<rparr>], now = 29000,
         calls = [Resolve 0 ?r], promises = 2, running = True\<rparr>"
  let ?after = "\<lparr>mcpProcess = Some 0, requestQueue = [], isReady = True, buffer = [],
         timers = [], now = 59000,
         calls = [Resolve 0 ?r, Reject 0 (Error ''Request timeout'')],
         promises = 2, running = True\<rparr>"
  have before: \<open>run ?parse
           [Start, Stderr ''Database Connected (Pool Ready)'',
            Send \<lparr>req_id = Num 1, params = JStr ''ping''\<rparr> WriteOk, Tick 1000,
            Stdout ''{"id":1,"result"'', Stdout ('':"ok"}'' @ [newline]), Tick 28000] init = ?before\<close>
    by (simp add: eval_defs)
  have sent: "step ?parse (Send \<lparr>req_id = Num 1, params = JStr ''ping''\<rparr> WriteOk) ?before = ?sent"
    by (simp add: eval_defs)
  have after: \<open>run ?parse
           [Tick 1000, Fire 0, Tick 1000, Stdout (''{"id":1,"result":"ok"}'' @ [newline]),
            Tick 28000, Fire 0] ?sent = ?after\<close>
    by (simp add: eval_defs)
  have "forgotten 1 ?after"
    by (simp add: forgotten_def)
  from forgotten_run [OF this, of ?parse evs]
  have "calls_on 1 (calls (run ?parse evs ?after)) = calls_on 1 (calls ?after)"
    by simp
  also have "\<dots> = []"
    by (simp add: calls_on_def)
  finally have never: "calls_on 1 (calls (run ?parse evs ?after)) = []" .
  then have pending: "outcome 1 (calls (run ?parse evs ?after)) = None"
    by (simp add: outcome_def)
  have first: "outcome 0 (calls ?after) = Some (Resolve 0 ?r)"
    by (simp add: outcome_def calls_on_def)
  show ?thesis
    unfolding Let_def before sent after using never pending first by simp
qed

end
